theory Spec2Isabelle
  imports Main "HOL-Library.AList" "HOL-Library.Char_ord" "HOL-Library.List_Lexorder"
begin

section \<open>Barman command line layer (barman/cli.py)\<close>

text \<open>
  The module \<^verbatim>\<open>barman/cli.py\<close> resolves server names, checks per-command
  preconditions and hands the work to the \<^verbatim>\<open>Server\<close> class.  Everything it does
  besides computing values is a call into a collaborator: the \<^verbatim>\<open>output\<close>
  module (\<^verbatim>\<open>info\<close>, \<^verbatim>\<open>warning\<close>, \<^verbatim>\<open>error\<close>, \<^verbatim>\<open>close_and_exit\<close>) and
  the methods of \<^verbatim>\<open>Server\<close>.  A run of a function is therefore modelled as the
  list of such calls it makes, in order, together with the way it ends.
\<close>

subsection \<open>Data\<close>

text \<open>The attributes of a server configuration object that \<^verbatim>\<open>cli.py\<close> reads or writes.\<close>

record server_config =
  name :: string
  description :: string
  active :: bool
  disabled :: bool
  msg_list :: "string list"
  basebackup_retry_sleep :: int
  basebackup_retry_times :: int

text \<open>\<^verbatim>\<open>Server(conf)\<close>: the object wraps its configuration, read back as \<^verbatim>\<open>server.config\<close>.\<close>

datatype server = Server (config: server_config)

text \<open>
  The global \<^verbatim>\<open>barman.__config__\<close>: \<^verbatim>\<open>servers()\<close>, \<^verbatim>\<open>get_server(name)\<close> and the
  attribute \<^verbatim>\<open>servers_msg_list\<close>.  The configuration module is a collaborator, so
  the three are independent parameters.
\<close>

record barman_config =
  config_servers :: "server_config list"
  config_get_server :: "string \<Rightarrow> server_config option"
  config_servers_msg_list :: "string list"

text \<open>
  A \<^verbatim>\<open>BackupInfo\<close>: its status and its \<^verbatim>\<open>tablespaces\<close> attribute, which is
  \<^verbatim>\<open>None\<close> or a list of objects with a \<^verbatim>\<open>name\<close>.
\<close>

datatype tablespace_data = Tablespace (ts_name: string) (ts_location: string)

record backup_info =
  backup_name :: string
  status :: string
  tablespaces :: "tablespace_data list option"

text \<open>
  Modelled from the spec: the constant \<^verbatim>\<open>BackupInfo.DONE\<close> of \<^verbatim>\<open>barman.infofile\<close>,
  the status of a completed backup (a backup record "has a status (DONE | other
  in-progress/failed states)").
\<close>

definition DONE :: string where
  "DONE = ''DONE''"

text \<open>
  The methods of \<^verbatim>\<open>Server\<close> that read the backup catalogue.  \<^verbatim>\<open>get_last_backup\<close>
  and \<^verbatim>\<open>get_first_backup\<close> return a backup id or \<^verbatim>\<open>None\<close>; \<^verbatim>\<open>get_backup\<close> is
  called with whatever they returned, so its argument may be \<^verbatim>\<open>None\<close>.
\<close>

record server_ops =
  get_last_backup :: "server \<Rightarrow> string option"
  get_first_backup :: "server \<Rightarrow> string option"
  get_backup :: "server \<Rightarrow> string option \<Rightarrow> backup_info option"

text \<open>The keyword arguments of one call \<^verbatim>\<open>server.recover(...)\<close>.\<close>

record recover_call =
  rc_server :: server
  rc_backup :: backup_info
  rc_dest :: string
  rc_tablespaces :: "(string \<times> string) list"
  rc_target_tli :: "int option"
  rc_target_time :: "string option"
  rc_target_xid :: "string option"
  rc_target_name :: "string option"
  rc_exclusive :: bool
  rc_remote_command :: "string option"

subsection \<open>Effects\<close>

text \<open>
  What a run does to the outside: messages on the output channel, by level, and the
  calls of \<^verbatim>\<open>Server.cron\<close> and \<^verbatim>\<open>Server.recover\<close>.
\<close>

datatype event =
    Info string
  | Warning string
  | Error string
  | ServerCron server
  | ServerRecover recover_call

datatype exn = IndexError | AttributeError

text \<open>
  A function returns a value, or the process ends in \<^verbatim>\<open>output.close_and_exit()\<close>,
  or an exception leaves the function.
\<close>

datatype 'a outcome = Return 'a | Exit | Raise exn

type_synonym 'a run = "event list \<times> 'a outcome"

definition return :: "'a \<Rightarrow> 'a run" where
  "return v = ([], Return v)"

definition raise :: "exn \<Rightarrow> 'a run" where
  "raise e = ([], Raise e)"

text \<open>Sequencing: the second part runs only when the first returned.\<close>

definition and_then :: "'a run \<Rightarrow> ('a \<Rightarrow> 'b run) \<Rightarrow> 'b run" where
  "and_then m f =
     (case m of
        (tr, Return v) \<Rightarrow> (case f v of (tr', r) \<Rightarrow> (tr @ tr', r))
      | (tr, Exit) \<Rightarrow> (tr, Exit)
      | (tr, Raise e) \<Rightarrow> (tr, Raise e))"

text \<open>A \<^verbatim>\<open>for\<close> loop over a list whose body updates the loop's variables \<open>s\<close>.\<close>

fun for_loop :: "'a list \<Rightarrow> 's \<Rightarrow> ('a \<Rightarrow> 's \<Rightarrow> 's run) \<Rightarrow> 's run" where
  "for_loop [] s body = return s"
| "for_loop (x # xs) s body = and_then (body x s) (\<lambda>s'. for_loop xs s' body)"

definition for_each :: "'a list \<Rightarrow> ('a \<Rightarrow> unit run) \<Rightarrow> unit run" where
  "for_each xs body = for_loop xs () (\<lambda>x _. body x)"

text \<open>
  Modelled from the spec: the module \<^verbatim>\<open>barman.output\<close>, the diagnostic channel that
  "accepts leveled messages (info/warning/error) and a terminal close-and-exit operation
  that flushes and terminates with an accumulated exit status".
\<close>

definition output_info :: "string \<Rightarrow> unit run" where
  "output_info msg = ([Info msg], Return ())"

definition output_warning :: "string \<Rightarrow> unit run" where
  "output_warning msg = ([Warning msg], Return ())"

definition output_error :: "string \<Rightarrow> unit run" where
  "output_error msg = ([Error msg], Return ())"

definition close_and_exit :: "'a run" where
  "close_and_exit = ([], Exit)"

text \<open>
  Modelled from the spec: the flag \<^verbatim>\<open>output.error_occurred\<close> that the exit status
  honours (the comment in \<^verbatim>\<open>main\<close>): set once an error message has been emitted.
\<close>

definition error_occurred :: "event list \<Rightarrow> bool" where
  "error_occurred tr = list_ex (\<lambda>e. case e of Error _ \<Rightarrow> True | _ \<Rightarrow> False) tr"

subsection \<open>\<^verbatim>\<open>server_error_output\<close>\<close>

definition server_error_output :: "server \<Rightarrow> bool \<Rightarrow> bool \<Rightarrow> unit run" where
  "server_error_output server is_error check_active =
     and_then
       (if disabled (config server) then
          and_then
            (if is_error then
               and_then (for_each (msg_list (config server)) output_error)
                 (\<lambda>_. close_and_exit)
             else for_each (msg_list (config server)) output_warning)
            (\<lambda>_. return False)
        else return check_active)
       (\<lambda>check_active.
          if check_active then
            if \<not> active (config server) then
              if is_error then
                and_then (output_error (''Not active server: '' @ name (config server)))
                  (\<lambda>_. close_and_exit)
              else output_warning (''Not active server: '' @ name (config server))
            else return ()
          else return ())"

subsection \<open>Strings and dictionaries\<close>

text \<open>The quote character of the messages' \<^verbatim>\<open>'%s'\<close>, and the line break.\<close>

definition sq :: string where
  "sq = [CHR 0x27]"

definition nl :: string where
  "nl = [CHR 0x0A]"

text \<open>
  \<^verbatim>\<open>s.split(sep, 1)\<close> for a separator of one character: at most one split, at the
  first occurrence; a string without the separator comes back whole, as the only element.
\<close>

definition split1 :: "char \<Rightarrow> string \<Rightarrow> string list" where
  "split1 sep s =
     (if sep \<in> set s
      then [takeWhile (\<lambda>c. c \<noteq> sep) s, tl (dropWhile (\<lambda>c. c \<noteq> sep) s)]
      else [s])"

text \<open>\<^verbatim>\<open>sep.join(xs)\<close>.\<close>

fun join :: "string \<Rightarrow> string list \<Rightarrow> string" where
  "join sep [] = []"
| "join sep [x] = x"
| "join sep (x # y # ys) = x @ sep @ join sep (y # ys)"

text \<open>
  A \<^verbatim>\<open>dict\<close> is an association list with distinct keys; the assignment
  \<^verbatim>\<open>d[k] = v\<close> is \<^const>\<open>AList.update\<close>, which replaces the value of a key that
  is present and adds the pair otherwise, and a lookup is \<^const>\<open>map_of\<close>.  The list
  keeps the keys in the order of their first insertion.  Python 2 iterates over a
  dictionary in an order of its own; no property below depends on that order.
\<close>

type_synonym ('k, 'v) dict = "('k \<times> 'v) list"

text \<open>
  \<^verbatim>\<open>d.update(seq)\<close> for a sequence of sequences: every element must have exactly
  two items, a key and a value; any other length raises \<^verbatim>\<open>ValueError\<close>, here
  \<open>None\<close>.
\<close>

fun dict_update :: "(string, string) dict \<Rightarrow> string list list \<Rightarrow> (string, string) dict option" where
  "dict_update d [] = Some d"
| "dict_update d (e # es) =
     (case e of
        [k, v] \<Rightarrow> dict_update (AList.update k v d) es
      | _ \<Rightarrow> None)"

subsection \<open>\<^verbatim>\<open>get_server\<close>, \<^verbatim>\<open>is_unknown_server\<close>, \<^verbatim>\<open>get_server_list\<close>\<close>

definition get_server :: "barman_config \<Rightarrow> string \<Rightarrow> bool \<Rightarrow> server option run" where
  "get_server cfg server_name dangerous =
     (let conf = config_get_server cfg server_name;
          global_error_list = config_servers_msg_list cfg
      in if global_error_list \<noteq> [] then
           and_then (for_each global_error_list output_error) (\<lambda>_. close_and_exit)
         else
           (case conf of
              None \<Rightarrow> return None
            | Some c \<Rightarrow>
                and_then (server_error_output (Server c) dangerous True)
                  (\<lambda>_. return (Some (Server c)))))"

definition is_unknown_server :: "server option \<Rightarrow> string \<Rightarrow> bool run" where
  "is_unknown_server server name' =
     (case server of
        None \<Rightarrow> and_then (output_error (''Unknown server '' @ sq @ name' @ sq)) (\<lambda>_. return True)
      | Some _ \<Rightarrow> return False)"

text \<open>The body of the loop over all configured servers (lines 639 to 654).\<close>

definition all_servers_body ::
  "bool \<Rightarrow> bool \<Rightarrow> server_config \<Rightarrow> (string, server option) dict
    \<Rightarrow> (string, server option) dict run" where
  "all_servers_body skip_inactive skip_disabled conf server_dict =
     (if skip_inactive \<and> \<not> active conf then
        and_then (output_info (''Skipping inactive server '' @ sq @ name conf @ sq))
          (\<lambda>_. return server_dict)
      else if skip_disabled \<and> disabled conf then
        and_then (output_info (''Skipping temporarily disabled server '' @ sq @ name conf @ sq))
          (\<lambda>_. return server_dict)
      else return (AList.update (name conf) (Some (Server conf)) server_dict))"

text \<open>The body of the loop over the requested names (lines 657 to 662).\<close>

definition named_servers_body ::
  "barman_config \<Rightarrow> string \<Rightarrow> (string, server option) dict
    \<Rightarrow> (string, server option) dict run" where
  "named_servers_body cfg server server_dict =
     (case config_get_server cfg server of
        None \<Rightarrow> return (AList.update server None server_dict)
      | Some conf \<Rightarrow> return (AList.update server (Some (Server conf)) server_dict))"

text \<open>
  \<open>args\<close> is \<open>None\<close> when the function is called without a namespace and
  \<open>Some server_name\<close> otherwise; \<^verbatim>\<open>args.server_name[0]\<close> on an empty list raises
  \<^verbatim>\<open>IndexError\<close>.  The \<^verbatim>\<open>return\<close> after \<^verbatim>\<open>output.close_and_exit()\<close> is never
  reached.
\<close>

definition get_server_list ::
  "barman_config \<Rightarrow> string list option \<Rightarrow> bool \<Rightarrow> bool \<Rightarrow> bool \<Rightarrow> bool
    \<Rightarrow> (string, server option) dict run" where
  "get_server_list cfg args skip_inactive skip_disabled on_error_stop suppress_error =
     (let server_dict = [];
          barman_config_servers = config_servers cfg;
          global_error_list = config_servers_msg_list cfg
      in and_then
           (if global_error_list \<noteq> [] then
              and_then
                (if \<not> suppress_error then for_each global_error_list output_error
                 else return ())
                (\<lambda>_. if on_error_stop then close_and_exit else return ())
            else return ())
           (\<lambda>_. and_then
              (case args of
                 None \<Rightarrow> return True
               | Some [] \<Rightarrow> raise IndexError
               | Some (first # _) \<Rightarrow> return (first = ''all''))
              (\<lambda>all_requested.
                 if all_requested then
                   for_loop barman_config_servers server_dict
                     (all_servers_body skip_inactive skip_disabled)
                 else
                   for_loop (case args of None \<Rightarrow> [] | Some server_name \<Rightarrow> server_name)
                     server_dict (named_servers_body cfg))))"

subsection \<open>\<^verbatim>\<open>parse_backup_id\<close>\<close>

definition parse_backup_id :: "server_ops \<Rightarrow> server \<Rightarrow> string \<Rightarrow> backup_info option" where
  "parse_backup_id ops server backup_id' =
     (let backup_id =
            (if backup_id' \<in> set [''latest'', ''last''] then get_last_backup ops server
             else if backup_id' \<in> set [''oldest'', ''first''] then get_first_backup ops server
             else Some backup_id')
      in get_backup ops server backup_id)"

subsection \<open>\<^verbatim>\<open>recover\<close>\<close>

record recover_args =
  server_name :: string
  backup_id :: string
  destination_directory :: string
  tablespace :: "string list option"
  retry_times :: "int option"
  retry_sleep :: "int option"
  target_tli :: "int option"
  target_time :: "string option"
  target_xid :: "string option"
  target_name :: "string option"
  exclusive :: bool
  remote_ssh_command :: "string option"

text \<open>One round of the loop that decodes the relocation rules (lines 291 to 298).\<close>

definition decode_rule :: "string \<Rightarrow> (string, string) dict \<Rightarrow> (string, string) dict run" where
  "decode_rule rule tablespaces' =
     (case dict_update tablespaces' [split1 CHR '':'' rule] of
        Some updated \<Rightarrow> return updated
      | None \<Rightarrow>
          and_then
            (output_error
               (''Invalid tablespace relocation rule '' @ sq @ rule @ sq @ nl @
                ''HINT: The valid syntax for a relocation rule is NAME:LOCATION''))
            (\<lambda>_. close_and_exit))"

text \<open>
  Lines 288 to 298.  \<^verbatim>\<open>args.tablespace\<close> is \<^verbatim>\<open>None\<close> when the option was
  not given, and the list of the rules, in the order given, otherwise.
\<close>

definition decode_tablespaces :: "string list option \<Rightarrow> (string, string) dict run" where
  "decode_tablespaces tablespace' =
     (case tablespace' of
        None \<Rightarrow> return []
      | Some rules \<Rightarrow> for_loop rules [] decode_rule)"

text \<open>Lines 301 to 309.\<close>

definition validate_tablespaces :: "backup_info \<Rightarrow> (string, string) dict \<Rightarrow> unit run" where
  "validate_tablespaces backup tablespaces' =
     (let valid_tablespaces =
            (case tablespaces backup of
               None \<Rightarrow> []
             | Some tablespace_list \<Rightarrow> map ts_name tablespace_list)
      in for_each (map fst tablespaces')
           (\<lambda>item.
              if item \<notin> set valid_tablespaces then
                and_then
                  (output_error
                     (''Invalid tablespace name '' @ sq @ item @ sq @ nl @
                      ''HINT: Please use any of the following tablespaces: '' @
                      join '', '' valid_tablespaces))
                  (\<lambda>_. close_and_exit)
              else return ()))"

definition unknown_backup :: "recover_args \<Rightarrow> 'a run" where
  "unknown_backup args =
     and_then
       (output_error
          (''Unknown backup '' @ sq @ backup_id args @ sq @
           '' for server '' @ sq @ server_name args @ sq))
       (\<lambda>_. close_and_exit)"

text \<open>The two assignments to \<^verbatim>\<open>server.config\<close> (lines 319 to 322).\<close>

definition set_retry :: "recover_args \<Rightarrow> server \<Rightarrow> server" where
  "set_retry args server =
     (let c1 = (case retry_sleep args of
                  None \<Rightarrow> config server
                | Some v \<Rightarrow> (config server)\<lparr>basebackup_retry_sleep := v\<rparr>);
          c2 = (case retry_times args of
                  None \<Rightarrow> c1
                | Some v \<Rightarrow> c1\<lparr>basebackup_retry_times := v\<rparr>)
      in Server c2)"

definition server_recover :: "recover_call \<Rightarrow> unit run" where
  "server_recover call = ([ServerRecover call], Return ())"

definition recover :: "barman_config \<Rightarrow> server_ops \<Rightarrow> recover_args \<Rightarrow> unit run" where
  "recover cfg ops args =
     and_then (get_server cfg (server_name args) True) (\<lambda>server.
     and_then (is_unknown_server server (server_name args)) (\<lambda>unknown.
     and_then (if unknown then close_and_exit else return ()) (\<lambda>_.
       case server of
         None \<Rightarrow> raise AttributeError
       | Some server \<Rightarrow>
     and_then
       (case parse_backup_id ops server (backup_id args) of
          None \<Rightarrow> unknown_backup args
        | Some backup \<Rightarrow> if status backup \<noteq> DONE then unknown_backup args else return backup)
       (\<lambda>backup.
     and_then (decode_tablespaces (tablespace args)) (\<lambda>tablespaces'.
     and_then (validate_tablespaces backup tablespaces') (\<lambda>_.
     and_then
       (if CHR '':'' \<in> set (destination_directory args) then
          and_then
            (output_error
               (''The destination directory parameter cannot contain the '' @
                sq @ '':'' @ sq @ '' character'' @ nl @
                ''HINT: If you want to do a remote recovery you have to use '' @
                ''the --remote-ssh-command option''))
            (\<lambda>_. close_and_exit)
        else return ())
       (\<lambda>_.
     and_then
       (server_recover
          \<lparr>rc_server = set_retry args server,
           rc_backup = backup,
           rc_dest = destination_directory args,
           rc_tablespaces = tablespaces',
           rc_target_tli = target_tli args,
           rc_target_time = target_time args,
           rc_target_xid = target_xid args,
           rc_target_name = target_name args,
           rc_exclusive = exclusive args,
           rc_remote_command = remote_ssh_command args\<rparr>)
       (\<lambda>_. close_and_exit))))))))"

subsection \<open>\<^verbatim>\<open>cron\<close>\<close>

text \<open>
  Entering \<^verbatim>\<open>lockfile.GlobalCronLock\<close> takes the lock or raises
  \<^verbatim>\<open>LockFileBusy\<close> or \<^verbatim>\<open>LockFilePermissionDenied\<close>; the latter carries the text
  that \<^verbatim>\<open>'%s'\<close> prints.  The lock file belongs to the file system, so the result
  of the attempt is a parameter of the run.
\<close>

datatype lock_result = Acquired | LockFileBusy | LockFilePermissionDenied string

definition server_cron :: "server \<Rightarrow> unit run" where
  "server_cron server = ([ServerCron server], Return ())"

definition cron :: "barman_config \<Rightarrow> lock_result \<Rightarrow> unit run" where
  "cron cfg lock =
     and_then
       (case lock of
          Acquired \<Rightarrow>
            and_then (get_server_list cfg None True False True False) (\<lambda>servers.
              for_each (sort (map fst servers)) (\<lambda>server.
                case map_of servers server of
                  Some (Some s) \<Rightarrow>
                    and_then (server_error_output s True True) (\<lambda>_. server_cron s)
                | _ \<Rightarrow> raise AttributeError))
        | LockFileBusy \<Rightarrow> output_info ''Another cron is running''
        | LockFilePermissionDenied e \<Rightarrow>
            output_error (''Permission denied, unable to access '' @ sq @ e @ sq))
       (\<lambda>_. close_and_exit)"

subsection \<open>A sample configuration\<close>

text \<open>
  A configuration provider over a list of server configurations, where
  \<^verbatim>\<open>get_server\<close> finds a configuration by its name, and two servers for it.
\<close>

definition config_of :: "server_config list \<Rightarrow> string list \<Rightarrow> barman_config" where
  "config_of confs msgs =
     \<lparr>config_servers = confs,
      config_get_server = (\<lambda>n. find (\<lambda>c. name c = n) confs),
      config_servers_msg_list = msgs\<rparr>"

definition main_conf :: server_config where
  "main_conf =
     \<lparr>name = ''main'', description = ''Main server'', active = True, disabled = False,
      msg_list = [], basebackup_retry_sleep = 30, basebackup_retry_times = 0\<rparr>"

definition broken_conf :: server_config where
  "broken_conf =
     \<lparr>name = ''broken'', description = ''Broken server'', active = False, disabled = True,
      msg_list = [''missing ssh_command'', ''missing conninfo''],
      basebackup_retry_sleep = 30, basebackup_retry_times = 0\<rparr>"

text \<open>
  A backup catalogue over a list of backups, oldest first: the last and the first backup
  are the ends of the list, and \<^verbatim>\<open>get_backup\<close> finds a backup by its id.
\<close>

definition ops_of :: "backup_info list \<Rightarrow> server_ops" where
  "ops_of backups =
     \<lparr>get_last_backup = (\<lambda>_. if backups = [] then None else Some (backup_name (last backups))),
      get_first_backup = (\<lambda>_. if backups = [] then None else Some (backup_name (hd backups))),
      get_backup = (\<lambda>_ ident. case ident of
                                  None \<Rightarrow> None
                                | Some i \<Rightarrow> find (\<lambda>b. backup_name b = i) backups)\<rparr>"

definition done_backup :: backup_info where
  "done_backup =
     \<lparr>backup_name = ''20150101T000000'', status = DONE,
      tablespaces = Some [Tablespace ''tbs1'' ''/srv/tbs1'']\<rparr>"

definition failed_backup :: backup_info where
  "failed_backup =
     \<lparr>backup_name = ''20150202T000000'', status = ''FAILED'', tablespaces = None\<rparr>"

text \<open>A \<^verbatim>\<open>recover\<close> request for the server \<^verbatim>\<open>main\<close> with the rsync-like destination.\<close>

definition recover_request :: recover_args where
  "recover_request =
     \<lparr>server_name = ''main'', backup_id = ''latest'',
      destination_directory = ''host:/path'', tablespace = None,
      retry_times = None, retry_sleep = None, target_tli = None, target_time = None,
      target_xid = None, target_name = None, exclusive = False,
      remote_ssh_command = None\<rparr>"

section \<open>Properties\<close>

subsection \<open>Sequencing and loops\<close>

lemma and_then_return [simp]: "and_then (return v) f = f v"
  by (simp add: and_then_def return_def split: prod.splits)

lemma and_then_Return [simp]:
  "and_then (tr, Return v) f = (tr @ fst (f v), snd (f v))"
  by (simp add: and_then_def split: prod.splits)

lemma and_then_Nil_Return [simp]: "and_then ([], Return v) f = f v"
  by (simp add: and_then_def split: prod.splits)

lemma and_then_Exit [simp]: "and_then (tr, Exit) f = (tr, Exit)"
  by (simp add: and_then_def)

lemma and_then_Raise [simp]: "and_then (tr, Raise e) f = (tr, Raise e)"
  by (simp add: and_then_def)

lemma and_then_close_and_exit [simp]: "and_then close_and_exit f = close_and_exit"
  by (simp add: close_and_exit_def)

lemma and_then_assoc:
  "and_then (and_then m f) g = and_then m (\<lambda>x. and_then (f x) g)"
  by (auto simp: and_then_def split: prod.splits outcome.splits)

lemma for_loop_append:
  "for_loop (xs @ ys) s body = and_then (for_loop xs s body) (\<lambda>s'. for_loop ys s' body)"
proof (induction xs arbitrary: s)
  case Nil
  show ?case by simp
next
  case (Cons x xs)
  show ?case by (simp add: Cons.IH and_then_assoc)
qed

lemma for_each_Nil [simp]: "for_each [] body = return ()"
  by (simp add: for_each_def)

lemma for_each_Cons [simp]:
  "for_each (x # xs) body = and_then (body x) (\<lambda>_. for_each xs body)"
  by (simp add: for_each_def)

lemma for_each_output_error [simp]:
  "for_each msgs output_error = (map Error msgs, Return ())"
  by (induction msgs) (simp_all add: return_def output_error_def)

lemma for_each_output_warning [simp]:
  "for_each msgs output_warning = (map Warning msgs, Return ())"
  by (induction msgs) (simp_all add: return_def output_warning_def)

text \<open>A dictionary filled by a loop of assignments: its keys and its values.\<close>

lemma dom_fold_update:
  "dom (map_of (fold (\<lambda>x. AList.update (f x) (g x)) xs d)) = f ` set xs \<union> dom (map_of d)"
  by (induction xs rule: rev_induct)
     (simp_all add: dom_map_of_conv_image_fst dom_update)

lemma map_of_fold_update_Some:
  "map_of (fold (\<lambda>x. AList.update (f x) (g x)) xs d) k = Some v \<Longrightarrow>
     (\<exists>x \<in> set xs. f x = k \<and> v = g x) \<or> map_of d k = Some v"
  by (induction xs arbitrary: v rule: rev_induct) (auto simp: update_conv' split: if_splits)

lemma map_of_fold_update_key:
  "n \<in> set names \<Longrightarrow> map_of (fold (\<lambda>x. AList.update x (h x)) names d) n = Some (h n)"
  by (induction names rule: rev_induct) (auto simp: update_conv')

subsection \<open>Disabled servers\<close>

text \<open>
  C4.  For a disabled server \<^verbatim>\<open>server_error_output\<close> emits exactly the messages of
  \<^verbatim>\<open>msg_list\<close>, in their order and nothing else: as errors, followed by
  \<^verbatim>\<open>close_and_exit\<close>, when \<^verbatim>\<open>is_error\<close> is set, and as warnings, after which the
  function returns, when it is not.  This holds whatever \<^verbatim>\<open>check_active\<close> and the
  server's \<^verbatim>\<open>active\<close> attribute are: the "Not active server" message is never added.
\<close>

theorem server_error_output_disabled:
  assumes "disabled (config server)"
  shows "server_error_output server True check_active =
           (map Error (msg_list (config server)), Exit) \<and>
         server_error_output server False check_active =
           (map Warning (msg_list (config server)), Return ())"
  using assms
  by (simp add: server_error_output_def close_and_exit_def return_def)

text \<open>The sample server \<open>broken_conf\<close> is disabled and not active, with two messages.\<close>

theorem server_error_output_disabled_witness:
  "disabled (config (Server broken_conf)) \<and> \<not> active (config (Server broken_conf)) \<and>
   server_error_output (Server broken_conf) True True =
     ([Error ''missing ssh_command'', Error ''missing conninfo''], Exit) \<and>
   server_error_output (Server broken_conf) False True =
     ([Warning ''missing ssh_command'', Warning ''missing conninfo''], Return ())"
  using server_error_output_disabled [of "Server broken_conf" True]
  by (simp add: broken_conf_def)

subsection \<open>Resolving the requested servers\<close>

text \<open>
  C2.  When \<^verbatim>\<open>servers_msg_list\<close> is not empty and \<^verbatim>\<open>on_error_stop\<close> is set,
  \<^verbatim>\<open>get_server_list\<close> resolves no server: it ends in \<^verbatim>\<open>close_and_exit\<close> and no
  dictionary is returned.  Before that it emits every message of the list once, in order,
  as an error, unless \<^verbatim>\<open>suppress_error\<close> is set, in which case it emits nothing.
  Neither the requested names nor the skip flags matter.
\<close>

theorem get_server_list_global_conflicts:
  assumes "config_servers_msg_list cfg \<noteq> []"
  shows "get_server_list cfg args skip_inactive skip_disabled True suppress_error =
           (if suppress_error then [] else map Error (config_servers_msg_list cfg), Exit)"
  using assms
  by (simp add: get_server_list_def close_and_exit_def return_def)

theorem get_server_list_global_conflicts_witness:
  "config_servers_msg_list (config_of [main_conf] [''conflict A'', ''conflict B'']) \<noteq> [] \<and>
   get_server_list (config_of [main_conf] [''conflict A'', ''conflict B''])
       (Some [''main'']) False False True False =
     ([Error ''conflict A'', Error ''conflict B''], Exit)"
  using get_server_list_global_conflicts
    [of "config_of [main_conf] [''conflict A'', ''conflict B'']" "Some [''main'']" False False False]
  by (simp add: config_of_def)

text \<open>
  C2, as the specification words it (every conflict message is emitted and an empty
  mapping is returned, for every request with \<^verbatim>\<open>on_error_stop\<close>), fails for a request
  with \<^verbatim>\<open>suppress_error\<close>: the conflict is not emitted, and the run ends in
  \<^verbatim>\<open>close_and_exit\<close>.
\<close>

theorem get_server_list_suppressed_counterexample:
  "config_servers_msg_list (config_of [main_conf] [''conflict'']) = [''conflict''] \<and>
   get_server_list (config_of [main_conf] [''conflict'']) (Some [''main''])
       False False True True = ([], Exit)"
  by (simp add: get_server_list_def config_of_def close_and_exit_def return_def)

text \<open>The two loops of \<^verbatim>\<open>get_server_list\<close>, and the part before them.\<close>

lemma for_loop_named_servers:
  "for_loop names d (named_servers_body cfg) =
     ([], Return (fold (\<lambda>n. AList.update n (map_option Server (config_get_server cfg n))) names d))"
  by (induction names arbitrary: d)
     (simp_all add: named_servers_body_def return_def split: option.splits)

lemma for_loop_all_servers:
  "\<exists>tr. for_loop confs d (all_servers_body skip_inactive skip_disabled) =
     (tr, Return (fold (\<lambda>c. AList.update (name c) (Some (Server c)))
                    (filter (\<lambda>c. \<not> (skip_inactive \<and> \<not> active c) \<and> \<not> (skip_disabled \<and> disabled c)) confs) d)) \<and>
     (\<forall>e \<in> set tr. \<exists>m. e = Info m)"
proof (induction confs arbitrary: d)
  case Nil
  show ?case by (simp add: return_def)
next
  case (Cons c confs)
  let ?keep = "\<lambda>c. \<not> (skip_inactive \<and> \<not> active c) \<and> \<not> (skip_disabled \<and> disabled c)"
  show ?case
  proof (cases "?keep c")
    case True
    then have "all_servers_body skip_inactive skip_disabled c d =
                 ([], Return (AList.update (name c) (Some (Server c)) d))"
      by (auto simp: all_servers_body_def return_def)
    then show ?thesis using True Cons.IH [of "AList.update (name c) (Some (Server c)) d"]
      by auto
  next
    case False
    then have "\<exists>m. all_servers_body skip_inactive skip_disabled c d = ([Info m], Return d)"
      by (auto simp: all_servers_body_def return_def output_info_def)
    then obtain m where "all_servers_body skip_inactive skip_disabled c d = ([Info m], Return d)"
      by blast
    moreover from Cons.IH [of d] obtain tr where
      "for_loop confs d (all_servers_body skip_inactive skip_disabled) =
        (tr, Return (fold (\<lambda>c. AList.update (name c) (Some (Server c))) (filter ?keep confs) d))"
      "\<forall>e \<in> set tr. \<exists>m. e = Info m"
      by blast
    ultimately show ?thesis using False by auto
  qed
qed

lemma gate_passes:
  "config_servers_msg_list cfg = [] \<or> \<not> on_error_stop \<Longrightarrow>
     (if config_servers_msg_list cfg \<noteq> [] then
        and_then
          (if \<not> suppress_error then for_each (config_servers_msg_list cfg) output_error
           else return ())
          (\<lambda>_. if on_error_stop then close_and_exit else return ())
      else return ()) =
     (if suppress_error then [] else map Error (config_servers_msg_list cfg), Return ())"
  by (auto simp: return_def)

lemma get_server_list_names:
  assumes gate: "config_servers_msg_list cfg = [] \<or> \<not> on_error_stop"
    and first: "first \<noteq> ''all''"
  shows "get_server_list cfg (Some (first # rest)) skip_inactive skip_disabled on_error_stop suppress_error =
           (if suppress_error then [] else map Error (config_servers_msg_list cfg),
            Return (fold (\<lambda>n. AList.update n (map_option Server (config_get_server cfg n)))
                      (first # rest) []))"
  unfolding get_server_list_def Let_def gate_passes [OF gate]
  using first by (simp add: for_loop_named_servers return_def del: for_loop.simps)

lemma get_server_list_all:
  assumes gate: "config_servers_msg_list cfg = [] \<or> \<not> on_error_stop"
    and args: "args = None \<or> (\<exists>rest. args = Some (''all'' # rest))"
  shows "\<exists>tr. get_server_list cfg args skip_inactive skip_disabled on_error_stop suppress_error =
           ((if suppress_error then [] else map Error (config_servers_msg_list cfg)) @ tr,
            Return (fold (\<lambda>c. AList.update (name c) (Some (Server c)))
                    (filter (\<lambda>c. \<not> (skip_inactive \<and> \<not> active c) \<and> \<not> (skip_disabled \<and> disabled c))
                       (config_servers cfg)) [])) \<and>
           (\<forall>e \<in> set tr. \<exists>m. e = Info m)"
proof -
  from for_loop_all_servers [of "config_servers cfg" "[]" skip_inactive skip_disabled]
  obtain tr where
    "for_loop (config_servers cfg) [] (all_servers_body skip_inactive skip_disabled) =
       (tr, Return (fold (\<lambda>c. AList.update (name c) (Some (Server c)))
                    (filter (\<lambda>c. \<not> (skip_inactive \<and> \<not> active c) \<and> \<not> (skip_disabled \<and> disabled c))
                       (config_servers cfg)) []))"
    "\<forall>e \<in> set tr. \<exists>m. e = Info m"
    by blast
  then show ?thesis
    unfolding get_server_list_def Let_def gate_passes [OF gate]
    using args by (auto simp: return_def)
qed

text \<open>
  C5.  For a list of requested names whose first name is not \<^verbatim>\<open>all\<close>, and when the
  global conflicts do not stop the run (there are none, or \<^verbatim>\<open>on_error_stop\<close> is
  off), \<^verbatim>\<open>get_server_list\<close> returns a dictionary whose keys are exactly the requested
  names: a name without configuration is mapped to \<^verbatim>\<open>None\<close>, a name with a
  configuration to the \<^verbatim>\<open>Server\<close> built from it.  So an unknown name in the list
  never keeps a known one from being resolved.
\<close>

theorem get_server_list_unknown_names:
  assumes "config_servers_msg_list cfg = [] \<or> \<not> on_error_stop"
    and "first \<noteq> ''all''"
  shows "\<exists>d. get_server_list cfg (Some (first # rest)) skip_inactive skip_disabled
                on_error_stop suppress_error =
               (if suppress_error then [] else map Error (config_servers_msg_list cfg), Return d) \<and>
             dom (map_of d) = set (first # rest) \<and>
             (\<forall>n \<in> set (first # rest).
                (config_get_server cfg n = None \<longrightarrow> map_of d n = Some None) \<and>
                (\<forall>c. config_get_server cfg n = Some c \<longrightarrow> map_of d n = Some (Some (Server c))))"
proof -
  let ?d = "fold (\<lambda>n. AList.update n (map_option Server (config_get_server cfg n))) (first # rest) []"
  have "dom (map_of ?d) = set (first # rest)"
    using dom_fold_update [of "\<lambda>n. n" "\<lambda>n. map_option Server (config_get_server cfg n)" "first # rest" "[]"]
    by simp
  moreover have "\<forall>n \<in> set (first # rest).
      map_of ?d n = Some (map_option Server (config_get_server cfg n))"
    using map_of_fold_update_key
      [where h = "\<lambda>n. map_option Server (config_get_server cfg n)"
         and names = "first # rest" and d = "[]"]
    by blast
  ultimately show ?thesis
    using get_server_list_names [OF assms, of rest skip_inactive skip_disabled suppress_error]
    by auto
qed

theorem get_server_list_unknown_names_witness:
  "config_servers_msg_list (config_of [main_conf, broken_conf] []) = [] \<and>
   ''nope'' \<noteq> ''all'' \<and>
   config_get_server (config_of [main_conf, broken_conf] []) ''nope'' = None \<and>
   (\<exists>d. get_server_list (config_of [main_conf, broken_conf] [])
           (Some [''nope'', ''main'', ''broken'']) False False True False = ([], Return d) \<and>
        dom (map_of d) = {''nope'', ''main'', ''broken''} \<and>
        map_of d ''nope'' = Some None \<and>
        map_of d ''main'' = Some (Some (Server main_conf)) \<and>
        map_of d ''broken'' = Some (Some (Server broken_conf)))"
  using get_server_list_unknown_names
    [of "config_of [main_conf, broken_conf] []" True "''nope''" "[''main'', ''broken'']"
        False False False]
  by (simp add: config_of_def main_conf_def broken_conf_def insert_commute)

text \<open>
  C9.  When the global conflicts do not stop the run: a list that starts with \<^verbatim>\<open>all\<close>
  is treated like no \<^verbatim>\<open>args\<close> at all, whatever follows, and gives the configured
  servers (those that the skip flags keep), each under its name, with an information
  message for each skipped one.  A list that starts with another name gives exactly its own
  names, looked up one by one, so that a later \<^verbatim>\<open>all\<close> is an ordinary name, mapped
  to \<^verbatim>\<open>None\<close> when no server of that name is configured.  An empty list has no first
  name: \<^verbatim>\<open>IndexError\<close>.
\<close>

theorem get_server_list_all_sentinel:
  assumes "config_servers_msg_list cfg = [] \<or> \<not> on_error_stop"
  shows "get_server_list cfg (Some (''all'' # rest)) skip_inactive skip_disabled
           on_error_stop suppress_error =
         get_server_list cfg None skip_inactive skip_disabled on_error_stop suppress_error \<and>
         (\<exists>tr d. get_server_list cfg None skip_inactive skip_disabled on_error_stop suppress_error =
                   ((if suppress_error then [] else map Error (config_servers_msg_list cfg)) @ tr,
                    Return d) \<and>
                 (\<forall>e \<in> set tr. \<exists>m. e = Info m) \<and>
                 dom (map_of d) =
                   name ` {c \<in> set (config_servers cfg).
                             \<not> (skip_inactive \<and> \<not> active c) \<and> \<not> (skip_disabled \<and> disabled c)} \<and>
                 (\<forall>k v. map_of d k = Some v \<longrightarrow>
                    (\<exists>c \<in> set (config_servers cfg). name c = k \<and> v = Some (Server c)))) \<and>
         (first \<noteq> ''all'' \<longrightarrow>
            (\<exists>d. get_server_list cfg (Some (first # rest)) skip_inactive skip_disabled
                    on_error_stop suppress_error =
                   (if suppress_error then [] else map Error (config_servers_msg_list cfg),
                    Return d) \<and>
                 dom (map_of d) = set (first # rest) \<and>
                 (\<forall>n \<in> set (first # rest).
                    map_of d n = Some (map_option Server (config_get_server cfg n))) \<and>
                 (''all'' \<in> set rest \<and> config_get_server cfg ''all'' = None \<longrightarrow>
                    map_of d ''all'' = Some None))) \<and>
         get_server_list cfg (Some []) skip_inactive skip_disabled on_error_stop suppress_error =
           (if suppress_error then [] else map Error (config_servers_msg_list cfg),
            Raise IndexError)"
proof (intro conjI impI)
  show "get_server_list cfg (Some (''all'' # rest)) skip_inactive skip_disabled
           on_error_stop suppress_error =
         get_server_list cfg None skip_inactive skip_disabled on_error_stop suppress_error"
    by (simp add: get_server_list_def)
next
  let ?keep = "\<lambda>c. \<not> (skip_inactive \<and> \<not> active c) \<and> \<not> (skip_disabled \<and> disabled c)"
  let ?d = "fold (\<lambda>c. AList.update (name c) (Some (Server c)))
              (filter ?keep (config_servers cfg)) []"
  from get_server_list_all [OF assms, of None skip_inactive skip_disabled suppress_error]
  obtain tr where run:
    "get_server_list cfg None skip_inactive skip_disabled on_error_stop suppress_error =
       ((if suppress_error then [] else map Error (config_servers_msg_list cfg)) @ tr, Return ?d)"
    and tr: "\<forall>e \<in> set tr. \<exists>m. e = Info m"
    by blast
  have "dom (map_of ?d) = name ` {c \<in> set (config_servers cfg). ?keep c}"
    using dom_fold_update [of name "\<lambda>c. Some (Server c)" "filter ?keep (config_servers cfg)" "[]"]
    by simp
  moreover have "\<forall>k v. map_of ?d k = Some v \<longrightarrow>
      (\<exists>c \<in> set (config_servers cfg). name c = k \<and> v = Some (Server c))"
    using map_of_fold_update_Some
      [of name "\<lambda>c. Some (Server c)" "filter ?keep (config_servers cfg)" "[]"]
    by fastforce
  ultimately show "\<exists>tr d. get_server_list cfg None skip_inactive skip_disabled on_error_stop suppress_error =
                   ((if suppress_error then [] else map Error (config_servers_msg_list cfg)) @ tr,
                    Return d) \<and>
                 (\<forall>e \<in> set tr. \<exists>m. e = Info m) \<and>
                 dom (map_of d) =
                   name ` {c \<in> set (config_servers cfg).
                             \<not> (skip_inactive \<and> \<not> active c) \<and> \<not> (skip_disabled \<and> disabled c)} \<and>
                 (\<forall>k v. map_of d k = Some v \<longrightarrow>
                    (\<exists>c \<in> set (config_servers cfg). name c = k \<and> v = Some (Server c)))"
    using run tr by blast
next
  assume first: "first \<noteq> ''all''"
  let ?d = "fold (\<lambda>n. AList.update n (map_option Server (config_get_server cfg n))) (first # rest) []"
  have "dom (map_of ?d) = set (first # rest)"
    using dom_fold_update [of "\<lambda>n. n" "\<lambda>n. map_option Server (config_get_server cfg n)" "first # rest" "[]"]
    by simp
  moreover have look: "\<forall>n \<in> set (first # rest).
      map_of ?d n = Some (map_option Server (config_get_server cfg n))"
    using map_of_fold_update_key
      [where h = "\<lambda>n. map_option Server (config_get_server cfg n)"
         and names = "first # rest" and d = "[]"]
    by blast
  moreover from look have "''all'' \<in> set rest \<and> config_get_server cfg ''all'' = None \<longrightarrow>
      map_of ?d ''all'' = Some None"
    by auto
  ultimately show "\<exists>d. get_server_list cfg (Some (first # rest)) skip_inactive skip_disabled
                    on_error_stop suppress_error =
                   (if suppress_error then [] else map Error (config_servers_msg_list cfg),
                    Return d) \<and>
                 dom (map_of d) = set (first # rest) \<and>
                 (\<forall>n \<in> set (first # rest).
                    map_of d n = Some (map_option Server (config_get_server cfg n))) \<and>
                 (''all'' \<in> set rest \<and> config_get_server cfg ''all'' = None \<longrightarrow>
                    map_of d ''all'' = Some None)"
    using get_server_list_names [OF assms first, of rest skip_inactive skip_disabled suppress_error]
    by blast
next
  show "get_server_list cfg (Some []) skip_inactive skip_disabled on_error_stop suppress_error =
           (if suppress_error then [] else map Error (config_servers_msg_list cfg),
            Raise IndexError)"
    unfolding get_server_list_def Let_def gate_passes [OF assms]
    by (simp add: raise_def)
qed

theorem get_server_list_all_sentinel_witness:
  "config_servers_msg_list (config_of [main_conf, broken_conf] []) = [] \<and>
   get_server_list (config_of [main_conf, broken_conf] []) (Some [''all'', ''all''])
       False False True False =
     get_server_list (config_of [main_conf, broken_conf] []) None False False True False \<and>
   ''main'' \<noteq> ''all'' \<and> ''all'' \<in> set [''all''] \<and>
   config_get_server (config_of [main_conf, broken_conf] []) ''all'' = None \<and>
   (\<exists>d. get_server_list (config_of [main_conf, broken_conf] []) (Some [''main'', ''all''])
           False False True False = ([], Return d) \<and>
        map_of d ''main'' = Some (Some (Server main_conf)) \<and>
        map_of d ''all'' = Some None)"
proof -
  let ?cfg = "config_of [main_conf, broken_conf] []"
  have gate: "config_servers_msg_list ?cfg = [] \<or> \<not> True"
    by (simp add: config_of_def)
  have first: "''main'' \<noteq> ''all''"
    by simp
  have unknown: "config_get_server ?cfg ''all'' = None"
    by (simp add: config_of_def main_conf_def broken_conf_def)
  have known: "config_get_server ?cfg ''main'' = Some main_conf"
    by (simp add: config_of_def main_conf_def)
  note sentinel = get_server_list_all_sentinel
    [OF gate, of "[''all'']" False False False "''main''"]
  from sentinel have same:
    "get_server_list ?cfg (Some [''all'', ''all'']) False False True False =
       get_server_list ?cfg None False False True False"
    by blast
  from sentinel first obtain d where
    run: "get_server_list ?cfg (Some [''main'', ''all'']) False False True False =
            (if False then [] else map Error (config_servers_msg_list ?cfg), Return d)"
    and look: "\<forall>n \<in> set [''main'', ''all''].
                 map_of d n = Some (map_option Server (config_get_server ?cfg n))"
    by blast
  from run have "get_server_list ?cfg (Some [''main'', ''all'']) False False True False =
      ([], Return d)"
    by (simp add: config_of_def)
  moreover from look known have "map_of d ''main'' = Some (Some (Server main_conf))"
    by simp
  moreover from look unknown have "map_of d ''all'' = Some None"
    by simp
  ultimately show ?thesis using gate same first unknown by auto
qed


subsection \<open>Backup identifiers\<close>

text \<open>
  C7.  For every server and every content of its catalogue, \<^verbatim>\<open>latest\<close> resolves as
  \<^verbatim>\<open>last\<close> does, to the backup that \<^verbatim>\<open>get_backup\<close> gives for the id returned by
  \<^verbatim>\<open>get_last_backup\<close>, and \<^verbatim>\<open>oldest\<close> as \<^verbatim>\<open>first\<close> does, through
  \<^verbatim>\<open>get_first_backup\<close>.  Any other identifier is passed to \<^verbatim>\<open>get_backup\<close> as it
  is.  The result is a function of the catalogue and the identifier only, so resolving the
  same identifier again on the same catalogue gives the same backup.
\<close>

theorem parse_backup_id_aliases:
  "parse_backup_id ops server ''latest'' = parse_backup_id ops server ''last'' \<and>
   parse_backup_id ops server ''latest'' = get_backup ops server (get_last_backup ops server) \<and>
   parse_backup_id ops server ''oldest'' = parse_backup_id ops server ''first'' \<and>
   parse_backup_id ops server ''oldest'' = get_backup ops server (get_first_backup ops server) \<and>
   (ident \<notin> {''latest'', ''last'', ''oldest'', ''first''} \<longrightarrow>
      parse_backup_id ops server ident = get_backup ops server (Some ident))"
  by (simp add: parse_backup_id_def)

theorem parse_backup_id_aliases_witness:
  "''20150101T000000'' \<notin> {''latest'', ''last'', ''oldest'', ''first''} \<and>
   parse_backup_id (ops_of [done_backup, failed_backup]) (Server main_conf) ''20150101T000000'' =
     Some done_backup \<and>
   parse_backup_id (ops_of [done_backup, failed_backup]) (Server main_conf) ''latest'' =
     Some failed_backup \<and>
   parse_backup_id (ops_of [done_backup, failed_backup]) (Server main_conf) ''last'' =
     Some failed_backup \<and>
   parse_backup_id (ops_of [done_backup, failed_backup]) (Server main_conf) ''oldest'' =
     Some done_backup \<and>
   parse_backup_id (ops_of [done_backup, failed_backup]) (Server main_conf) ''first'' =
     Some done_backup"
proof -
  let ?ops = "ops_of [done_backup, failed_backup]"
  let ?server = "Server main_conf"
  have literal: "''20150101T000000'' \<notin> {''latest'', ''last'', ''oldest'', ''first''}"
    by simp
  have newest: "get_backup ?ops ?server (get_last_backup ?ops ?server) = Some failed_backup"
    by (simp add: ops_of_def done_backup_def failed_backup_def)
  have eldest: "get_backup ?ops ?server (get_first_backup ?ops ?server) = Some done_backup"
    by (simp add: ops_of_def done_backup_def failed_backup_def)
  have found: "get_backup ?ops ?server (Some ''20150101T000000'') = Some done_backup"
    by (simp add: ops_of_def done_backup_def failed_backup_def)
  from parse_backup_id_aliases [of ?ops ?server "''20150101T000000''"]
  show ?thesis
    unfolding newest eldest found using literal by metis
qed

subsection \<open>Tablespace relocation rules\<close>

text \<open>Splitting a rule at its first colon.\<close>

lemma split1_colon:
  "CHR '':'' \<in> set rule \<Longrightarrow>
     \<exists>n l. split1 CHR '':'' rule = [n, l] \<and> rule = n @ CHR '':'' # l \<and> CHR '':'' \<notin> set n"
proof -
  assume c: "CHR '':'' \<in> set rule"
  let ?P = "\<lambda>c. c \<noteq> CHR '':''"
  have ne: "dropWhile ?P rule \<noteq> []" using c by simp
  then have hd: "hd (dropWhile ?P rule) = CHR '':''"
    using hd_dropWhile [of ?P rule] by simp
  have "rule = takeWhile ?P rule @ dropWhile ?P rule" by simp
  also have "dropWhile ?P rule = CHR '':'' # tl (dropWhile ?P rule)"
    using ne hd by (cases "dropWhile ?P rule") simp_all
  finally have "rule = takeWhile ?P rule @ CHR '':'' # tl (dropWhile ?P rule)" .
  moreover have "CHR '':'' \<notin> set (takeWhile ?P rule)"
    by (auto dest: set_takeWhileD)
  ultimately show ?thesis using c by (auto simp: split1_def)
qed

lemma split1_decomposed:
  "CHR '':'' \<notin> set n \<Longrightarrow> split1 CHR '':'' (n @ CHR '':'' # l) = [n, l]"
proof -
  assume "CHR '':'' \<notin> set n"
  then have "\<forall>c \<in> set n. c \<noteq> CHR '':''" by auto
  then show ?thesis by (simp add: split1_def)
qed

lemma split1_no_colon: "CHR '':'' \<notin> set rule \<Longrightarrow> split1 CHR '':'' rule = [rule]"
  by (simp add: split1_def)

lemma name_eq:
  "CHR '':'' \<notin> set n \<Longrightarrow> CHR '':'' \<notin> set n' \<Longrightarrow>
     n @ CHR '':'' # l = n' @ CHR '':'' # l' \<longleftrightarrow> n = n' \<and> l = l'"
proof
  assume a: "CHR '':'' \<notin> set n" "CHR '':'' \<notin> set n'" and e: "n @ CHR '':'' # l = n' @ CHR '':'' # l'"
  have "split1 CHR '':'' (n @ CHR '':'' # l) = split1 CHR '':'' (n' @ CHR '':'' # l')"
    using e by simp
  then show "n = n' \<and> l = l'" using a by (simp add: split1_decomposed)
qed simp

text \<open>One rule, and the loop over the rules.\<close>

lemma decode_rule_ok:
  "CHR '':'' \<notin> set n \<Longrightarrow>
     decode_rule (n @ CHR '':'' # l) d = ([], Return (AList.update n l d))"
  by (simp add: decode_rule_def split1_decomposed return_def)

lemma decode_rule_bad:
  "CHR '':'' \<notin> set rule \<Longrightarrow>
     decode_rule rule d =
       ([Error (''Invalid tablespace relocation rule '' @ sq @ rule @ sq @ nl @
                ''HINT: The valid syntax for a relocation rule is NAME:LOCATION'')], Exit)"
  by (simp add: decode_rule_def split1_no_colon output_error_def close_and_exit_def)

lemma for_loop_decode_rule_ok:
  "\<forall>r \<in> set rules. CHR '':'' \<in> set r \<Longrightarrow>
     \<exists>d'. for_loop rules d decode_rule = ([], Return d')"
proof (induction rules arbitrary: d)
  case Nil
  show ?case by (simp add: return_def)
next
  case (Cons r rules)
  from Cons.prems obtain n l where r: "r = n @ CHR '':'' # l" "CHR '':'' \<notin> set n"
    using split1_colon [of r] by auto
  from Cons.IH [of "AList.update n l d"] Cons.prems
  obtain d' where "for_loop rules (AList.update n l d) decode_rule = ([], Return d')" by auto
  then show ?case using r by (simp add: decode_rule_ok)
qed

lemma for_loop_decode_rule_snoc:
  assumes "for_loop rules d decode_rule = ([], Return d')" and "CHR '':'' \<notin> set n"
  shows "for_loop (rules @ [n @ CHR '':'' # l]) d decode_rule = ([], Return (AList.update n l d'))"
  using assms by (simp add: for_loop_append decode_rule_ok return_def)

lemma for_loop_decode_rule_stops:
  assumes pre: "\<forall>p \<in> set pre. CHR '':'' \<in> set p" and r: "CHR '':'' \<notin> set r"
  shows "for_loop (pre @ r # post) d decode_rule =
           ([Error (''Invalid tablespace relocation rule '' @ sq @ r @ sq @ nl @
                    ''HINT: The valid syntax for a relocation rule is NAME:LOCATION'')], Exit)"
proof -
  from for_loop_decode_rule_ok [OF pre] obtain d' where
    "for_loop pre d decode_rule = ([], Return d')" by blast
  then show ?thesis
    by (simp add: for_loop_append decode_rule_bad [OF r])
qed

text \<open>
  C3.  A rule that holds a colon is split at its first colon into the name before it and
  the location after it, and the pair is stored; the name has no colon, the location may
  have more, and either may be empty.  A rule without a colon, after rules that all hold
  one, gives the error that quotes this rule, and the run ends there, in
  \<^verbatim>\<open>close_and_exit\<close>: the result does not depend on the rules that follow.
\<close>

theorem decode_tablespaces_malformed:
  "(CHR '':'' \<in> set rule \<longrightarrow>
      (\<exists>n l. rule = n @ CHR '':'' # l \<and> CHR '':'' \<notin> set n \<and>
             decode_rule rule d = ([], Return (AList.update n l d)))) \<and>
   ((\<forall>p \<in> set pre. CHR '':'' \<in> set p) \<and> CHR '':'' \<notin> set r \<longrightarrow>
      decode_tablespaces (Some (pre @ r # post)) =
        ([Error (''Invalid tablespace relocation rule '' @ sq @ r @ sq @ nl @
                 ''HINT: The valid syntax for a relocation rule is NAME:LOCATION'')], Exit))"
proof (intro conjI impI)
  assume "CHR '':'' \<in> set rule"
  then obtain n l where "rule = n @ CHR '':'' # l" "CHR '':'' \<notin> set n"
    using split1_colon [of rule] by blast
  then show "\<exists>n l. rule = n @ CHR '':'' # l \<and> CHR '':'' \<notin> set n \<and>
             decode_rule rule d = ([], Return (AList.update n l d))"
    using decode_rule_ok [of n l d] by blast
next
  assume "(\<forall>p \<in> set pre. CHR '':'' \<in> set p) \<and> CHR '':'' \<notin> set r"
  then show "decode_tablespaces (Some (pre @ r # post)) =
        ([Error (''Invalid tablespace relocation rule '' @ sq @ r @ sq @ nl @
                 ''HINT: The valid syntax for a relocation rule is NAME:LOCATION'')], Exit)"
    by (simp add: decode_tablespaces_def for_loop_decode_rule_stops)
qed

theorem decode_tablespaces_malformed_witness:
  "CHR '':'' \<in> set ''tbs1:/new:dir'' \<and>
   decode_rule ''tbs1:/new:dir'' [] = ([], Return [(''tbs1'', ''/new:dir'')]) \<and>
   CHR '':'' \<in> set ''a:/x'' \<and> CHR '':'' \<notin> set ''malformed'' \<and>
   decode_tablespaces (Some ([''a:/x''] @ ''malformed'' # [''b:/y'', ''worse''])) =
     ([Error (''Invalid tablespace relocation rule '' @ sq @ ''malformed'' @ sq @ nl @
              ''HINT: The valid syntax for a relocation rule is NAME:LOCATION'')], Exit)"
proof -
  have colon: "CHR '':'' \<in> set ''tbs1:/new:dir''"
    by simp
  have good: "\<forall>p \<in> set [''a:/x'']. CHR '':'' \<in> set p"
    by simp
  have bad: "CHR '':'' \<notin> set ''malformed''"
    by simp
  note rule = decode_tablespaces_malformed
    [of "''tbs1:/new:dir''" "[]" "[''a:/x'']" "''malformed''" "[''b:/y'', ''worse'']"]
  from rule colon obtain n l where
    "''tbs1:/new:dir'' = n @ CHR '':'' # l" and "CHR '':'' \<notin> set n"
    and run: "decode_rule ''tbs1:/new:dir'' [] = ([], Return (AList.update n l []))"
    by blast
  then have "''tbs1'' @ CHR '':'' # ''/new:dir'' = n @ CHR '':'' # l"
    by simp
  then have "''tbs1'' = n \<and> ''/new:dir'' = l"
    using \<open>CHR '':'' \<notin> set n\<close> by (subst (asm) name_eq) simp_all
  with run have "decode_rule ''tbs1:/new:dir'' [] = ([], Return [(''tbs1'', ''/new:dir'')])"
    by auto
  moreover from rule good bad have
    "decode_tablespaces (Some ([''a:/x''] @ ''malformed'' # [''b:/y'', ''worse''])) =
     ([Error (''Invalid tablespace relocation rule '' @ sq @ ''malformed'' @ sq @ nl @
              ''HINT: The valid syntax for a relocation rule is NAME:LOCATION'')], Exit)"
    by blast
  ultimately show ?thesis using colon bad by simp
qed

text \<open>
  C3, as the specification words it, asks for two non-empty parts and an error for an
  empty name or an empty location.  The code has no such check: the rule \<^verbatim>\<open>a:\<close> is
  stored with an empty location and the rule \<^verbatim>\<open>:/x\<close> with an empty name, without
  any message.
\<close>

theorem decode_tablespaces_empty_part_counterexample:
  "decode_tablespaces (Some [''a:'', '':/x'']) = ([], Return [(''a'', ''''), ('''', ''/x'')])"
  by (simp add: decode_tablespaces_def decode_rule_def split1_def return_def)

text \<open>The last rule for a name decides its location.\<close>

lemma last_rule_snoc:
  assumes n0: "CHR '':'' \<notin> set n0"
  shows "(\<exists>pre post. rules @ [n0 @ CHR '':'' # l0] = pre @ (n @ CHR '':'' # l) # post \<and>
            CHR '':'' \<notin> set n \<and> (\<forall>p \<in> set post. \<forall>l'. p \<noteq> n @ CHR '':'' # l'))
         \<longleftrightarrow>
         (n = n0 \<and> l = l0) \<or>
         (n \<noteq> n0 \<and>
          (\<exists>pre post. rules = pre @ (n @ CHR '':'' # l) # post \<and>
             CHR '':'' \<notin> set n \<and> (\<forall>p \<in> set post. \<forall>l'. p \<noteq> n @ CHR '':'' # l')))"
    (is "?L \<longleftrightarrow> ?R")
proof
  assume ?L
  then obtain pre post where
    eq: "rules @ [n0 @ CHR '':'' # l0] = pre @ (n @ CHR '':'' # l) # post"
    and n: "CHR '':'' \<notin> set n"
    and later: "\<forall>p \<in> set post. \<forall>l'. p \<noteq> n @ CHR '':'' # l'"
    by blast
  show ?R
  proof (cases post rule: rev_cases)
    case Nil
    with eq have "n0 @ CHR '':'' # l0 = n @ CHR '':'' # l" by simp
    with n0 n show ?thesis by (simp add: name_eq)
  next
    case (snoc post' z)
    with eq have "rules @ [n0 @ CHR '':'' # l0] = (pre @ (n @ CHR '':'' # l) # post') @ [z]"
      by simp
    then have rules: "rules = pre @ (n @ CHR '':'' # l) # post'" and z: "z = n0 @ CHR '':'' # l0"
      by simp_all
    from later snoc z have "n0 @ CHR '':'' # l0 \<noteq> n @ CHR '':'' # l0" by auto
    then have "n \<noteq> n0" by auto
    moreover from later snoc have "\<forall>p \<in> set post'. \<forall>l'. p \<noteq> n @ CHR '':'' # l'" by simp
    ultimately show ?thesis using rules n by blast
  qed
next
  assume ?R
  then show ?L
  proof
    assume "n = n0 \<and> l = l0"
    then have "rules @ [n0 @ CHR '':'' # l0] = rules @ (n @ CHR '':'' # l) # []" by simp
    moreover have "CHR '':'' \<notin> set n" using n0 \<open>n = n0 \<and> l = l0\<close> by simp
    ultimately show ?L by (metis empty_iff list.set(1))
  next
    assume r: "n \<noteq> n0 \<and>
      (\<exists>pre post. rules = pre @ (n @ CHR '':'' # l) # post \<and>
         CHR '':'' \<notin> set n \<and> (\<forall>p \<in> set post. \<forall>l'. p \<noteq> n @ CHR '':'' # l'))"
    then obtain pre post where
      rules: "rules = pre @ (n @ CHR '':'' # l) # post"
      and n: "CHR '':'' \<notin> set n"
      and later: "\<forall>p \<in> set post. \<forall>l'. p \<noteq> n @ CHR '':'' # l'"
      by blast
    from r have "n0 \<noteq> n" by auto
    with n n0 have "\<forall>l'. n0 @ CHR '':'' # l0 \<noteq> n @ CHR '':'' # l'"
      by (simp add: name_eq)
    with later have "\<forall>p \<in> set (post @ [n0 @ CHR '':'' # l0]). \<forall>l'. p \<noteq> n @ CHR '':'' # l'"
      by simp
    moreover have "rules @ [n0 @ CHR '':'' # l0] =
        pre @ (n @ CHR '':'' # l) # (post @ [n0 @ CHR '':'' # l0])"
      using rules by simp
    ultimately show ?L using n by blast
  qed
qed

lemma for_loop_decode_rule_last_wins:
  assumes "\<forall>r \<in> set rules. CHR '':'' \<in> set r"
  shows "\<exists>d. for_loop rules [] decode_rule = ([], Return d) \<and>
           (\<forall>n l. map_of d n = Some l \<longleftrightarrow>
              (\<exists>pre post. rules = pre @ (n @ CHR '':'' # l) # post \<and>
                 CHR '':'' \<notin> set n \<and> (\<forall>p \<in> set post. \<forall>l'. p \<noteq> n @ CHR '':'' # l')))"
  using assms
proof (induction rules rule: rev_induct)
  case Nil
  show ?case by (simp add: return_def)
next
  case (snoc r rules)
  from snoc.prems obtain n0 l0 where r: "r = n0 @ CHR '':'' # l0" and n0: "CHR '':'' \<notin> set n0"
    using split1_colon [of r] by auto
  from snoc.IH snoc.prems obtain d where
    d: "for_loop rules [] decode_rule = ([], Return d)"
    and m: "\<And>n l. map_of d n = Some l \<longleftrightarrow>
              (\<exists>pre post. rules = pre @ (n @ CHR '':'' # l) # post \<and>
                 CHR '':'' \<notin> set n \<and> (\<forall>p \<in> set post. \<forall>l'. p \<noteq> n @ CHR '':'' # l'))"
    by auto
  have loop: "for_loop (rules @ [r]) [] decode_rule = ([], Return (AList.update n0 l0 d))"
    unfolding r by (rule for_loop_decode_rule_snoc [OF d n0])
  have "map_of (AList.update n0 l0 d) n = Some l \<longleftrightarrow>
          (\<exists>pre post. rules @ [r] = pre @ (n @ CHR '':'' # l) # post \<and>
             CHR '':'' \<notin> set n \<and> (\<forall>p \<in> set post. \<forall>l'. p \<noteq> n @ CHR '':'' # l'))" for n l
    unfolding r last_rule_snoc [OF n0] m [symmetric]
    by (auto simp: update_conv')
  with loop show ?case by blast
qed


text \<open>
  C6.  When every rule holds a colon, the rules are decoded without any message into a
  dictionary that maps a name to a location exactly when some rule \<^verbatim>\<open>name:location\<close>
  is the last rule for that name: a later rule for a name replaces the earlier ones.  In
  particular the rules \<^verbatim>\<open>a:/x\<close>, \<^verbatim>\<open>b:/y\<close> give \<^verbatim>\<open>{a: /x, b: /y}\<close> and the rules
  \<^verbatim>\<open>a:/x\<close>, \<^verbatim>\<open>a:/z\<close> give \<^verbatim>\<open>{a: /z}\<close>.
\<close>

theorem decode_tablespaces_last_wins:
  "((\<forall>r \<in> set rules. CHR '':'' \<in> set r) \<longrightarrow>
     (\<exists>d. decode_tablespaces (Some rules) = ([], Return d) \<and>
        (\<forall>n l. map_of d n = Some l \<longleftrightarrow>
           (\<exists>pre post. rules = pre @ (n @ CHR '':'' # l) # post \<and>
              CHR '':'' \<notin> set n \<and> (\<forall>p \<in> set post. \<forall>l'. p \<noteq> n @ CHR '':'' # l'))))) \<and>
   decode_tablespaces (Some [''a:/x'', ''b:/y'']) =
     ([], Return [(''a'', ''/x''), (''b'', ''/y'')]) \<and>
   decode_tablespaces (Some [''a:/x'', ''a:/z'']) = ([], Return [(''a'', ''/z'')])"
proof (intro conjI impI)
  assume "\<forall>r \<in> set rules. CHR '':'' \<in> set r"
  then show "\<exists>d. decode_tablespaces (Some rules) = ([], Return d) \<and>
        (\<forall>n l. map_of d n = Some l \<longleftrightarrow>
           (\<exists>pre post. rules = pre @ (n @ CHR '':'' # l) # post \<and>
              CHR '':'' \<notin> set n \<and> (\<forall>p \<in> set post. \<forall>l'. p \<noteq> n @ CHR '':'' # l')))"
    using for_loop_decode_rule_last_wins [of rules]
    by (simp add: decode_tablespaces_def)
next
  show "decode_tablespaces (Some [''a:/x'', ''b:/y'']) =
     ([], Return [(''a'', ''/x''), (''b'', ''/y'')])"
    by (simp add: decode_tablespaces_def decode_rule_def split1_def return_def)
next
  show "decode_tablespaces (Some [''a:/x'', ''a:/z'']) = ([], Return [(''a'', ''/z'')])"
    by (simp add: decode_tablespaces_def decode_rule_def split1_def return_def)
qed

theorem decode_tablespaces_last_wins_witness:
  "CHR '':'' \<in> set ''a:/x'' \<and> CHR '':'' \<in> set ''b:/y'' \<and> CHR '':'' \<in> set ''a:/z'' \<and>
   (\<exists>d. decode_tablespaces (Some [''a:/x'', ''b:/y'', ''a:/z'']) = ([], Return d) \<and>
        map_of d ''a'' = Some ''/z'' \<and> map_of d ''b'' = Some ''/y'' \<and>
        map_of d ''a'' \<noteq> Some ''/x'')"
proof -
  let ?rules = "[''a:/x'', ''b:/y'', ''a:/z'']"
  have colons: "\<forall>r \<in> set ?rules. CHR '':'' \<in> set r"
    by simp
  from decode_tablespaces_last_wins [of ?rules] colons obtain d where
    run: "decode_tablespaces (Some ?rules) = ([], Return d)"
    and m: "\<And>n l. map_of d n = Some l \<longleftrightarrow>
              (\<exists>pre post. ?rules = pre @ (n @ CHR '':'' # l) # post \<and>
                 CHR '':'' \<notin> set n \<and> (\<forall>p \<in> set post. \<forall>l'. p \<noteq> n @ CHR '':'' # l'))"
    by blast
  have "?rules = [''a:/x'', ''b:/y''] @ (''a'' @ CHR '':'' # ''/z'') # [] \<and>
        CHR '':'' \<notin> set ''a'' \<and> (\<forall>p \<in> set []. \<forall>l'. p \<noteq> ''a'' @ CHR '':'' # l')"
    by simp
  then have a: "map_of d ''a'' = Some ''/z''"
    unfolding m by blast
  have "?rules = [''a:/x''] @ (''b'' @ CHR '':'' # ''/y'') # [''a:/z''] \<and>
        CHR '':'' \<notin> set ''b'' \<and> (\<forall>p \<in> set [''a:/z'']. \<forall>l'. p \<noteq> ''b'' @ CHR '':'' # l')"
    by simp
  then have b: "map_of d ''b'' = Some ''/y''"
    unfolding m by blast
  from a have "map_of d ''a'' \<noteq> Some ''/x''"
    by simp
  with run a b show ?thesis by simp
qed

subsection \<open>Recovery\<close>

text \<open>How each step of \<^verbatim>\<open>recover\<close> can end.\<close>

lemma decode_tablespaces_cases:
  "(\<exists>d. decode_tablespaces ts = ([], Return d)) \<or>
   (\<exists>m. decode_tablespaces ts = ([Error m], Exit))"
proof (cases ts)
  case None
  then show ?thesis by (simp add: decode_tablespaces_def return_def)
next
  case (Some rules)
  show ?thesis
  proof (cases "\<forall>r \<in> set rules. CHR '':'' \<in> set r")
    case True
    then show ?thesis using for_loop_decode_rule_ok [of rules "[]"] Some
      by (simp add: decode_tablespaces_def)
  next
    case False
    then have "\<exists>r \<in> set rules. CHR '':'' \<notin> set r" by blast
    then obtain pre r post where "rules = pre @ r # post" "CHR '':'' \<notin> set r"
      "\<forall>p \<in> set pre. \<not> CHR '':'' \<notin> set p"
      using split_list_first_prop [of rules "\<lambda>r. CHR '':'' \<notin> set r"] by blast
    then show ?thesis using Some for_loop_decode_rule_stops [of pre r post "[]"]
      by (simp add: decode_tablespaces_def)
  qed
qed

lemma validate_loop_cases:
  "for_each keys (\<lambda>item. if item \<notin> V then and_then (output_error (msg item)) (\<lambda>_. close_and_exit)
                          else return ()) = ([], Return ()) \<or>
   (\<exists>m. for_each keys (\<lambda>item. if item \<notin> V then and_then (output_error (msg item)) (\<lambda>_. close_and_exit)
                          else return ()) = ([Error m], Exit))"
  by (induction keys) (auto simp: return_def output_error_def close_and_exit_def)

lemma validate_tablespaces_cases:
  "validate_tablespaces backup d = ([], Return ()) \<or>
   (\<exists>m. validate_tablespaces backup d = ([Error m], Exit))"
  unfolding validate_tablespaces_def Let_def by (rule validate_loop_cases)

lemma get_server_eq:
  "get_server cfg n dangerous =
     (if config_servers_msg_list cfg \<noteq> [] then (map Error (config_servers_msg_list cfg), Exit)
      else case config_get_server cfg n of
        None \<Rightarrow> ([], Return None)
      | Some c \<Rightarrow>
          if disabled c then
            if dangerous then (map Error (msg_list c), Exit)
            else (map Warning (msg_list c), Return (Some (Server c)))
          else if active c then ([], Return (Some (Server c)))
          else if dangerous then ([Error (''Not active server: '' @ name c)], Exit)
          else ([Warning (''Not active server: '' @ name c)], Return (Some (Server c))))"
  by (simp add: get_server_def server_error_output_def close_and_exit_def return_def
      output_error_def output_warning_def split: option.splits)

lemma unknown_backup_eq:
  "unknown_backup args =
     ([Error (''Unknown backup '' @ sq @ backup_id args @ sq @
              '' for server '' @ sq @ server_name args @ sq)], Exit)"
  by (simp add: unknown_backup_def output_error_def close_and_exit_def)

lemma recover_rejected:
  assumes colon: "CHR '':'' \<in> set (destination_directory args)"
  shows "\<exists>ms. recover cfg ops args = (map Error ms, Exit) \<and>
           ((\<forall>c. config_get_server cfg (server_name args) = Some c \<and> disabled c
                \<longrightarrow> msg_list c \<noteq> []) \<longrightarrow> ms \<noteq> [])"
proof (cases "config_servers_msg_list cfg = []")
  case False
  then have "recover cfg ops args = (map Error (config_servers_msg_list cfg), Exit)"
    by (simp add: recover_def get_server_eq)
  with False show ?thesis by blast
next
  case no_conflict: True
  show ?thesis
  proof (cases "config_get_server cfg (server_name args)")
    case None
    with no_conflict have "recover cfg ops args =
        (map Error [''Unknown server '' @ sq @ server_name args @ sq], Exit)"
      by (simp add: recover_def get_server_eq is_unknown_server_def output_error_def
          close_and_exit_def return_def)
    then show ?thesis by blast
  next
    case (Some c)
    show ?thesis
    proof (cases "disabled c")
      case True
      with no_conflict Some have "recover cfg ops args = (map Error (msg_list c), Exit)"
        by (simp add: recover_def get_server_eq)
      with Some True show ?thesis by blast
    next
      case enabled: False
      show ?thesis
      proof (cases "active c")
        case False
        with no_conflict Some enabled have
          "recover cfg ops args = (map Error [''Not active server: '' @ name c], Exit)"
          by (simp add: recover_def get_server_eq)
        then show ?thesis by blast
      next
        case True
        have start: "get_server cfg (server_name args) True = ([], Return (Some (Server c)))"
          using no_conflict Some enabled True by (simp add: get_server_eq)
        have single: "\<exists>m. recover cfg ops args = ([Error m], Exit)"
        proof (cases "\<exists>b. parse_backup_id ops (Server c) (backup_id args) = Some b \<and> status b = DONE")
          case False
          then have "recover cfg ops args =
              ([Error (''Unknown backup '' @ sq @ backup_id args @ sq @
                       '' for server '' @ sq @ server_name args @ sq)], Exit)"
            by (auto simp: recover_def start is_unknown_server_def return_def unknown_backup_eq
                split: option.splits)
          then show ?thesis by blast
        next
          case True
          then obtain b where b: "parse_backup_id ops (Server c) (backup_id args) = Some b"
            "status b = DONE" by blast
          from decode_tablespaces_cases [of "tablespace args"] show ?thesis
          proof
            assume "\<exists>m. decode_tablespaces (tablespace args) = ([Error m], Exit)"
            then show ?thesis
              by (auto simp: recover_def start is_unknown_server_def return_def b)
          next
            assume "\<exists>d. decode_tablespaces (tablespace args) = ([], Return d)"
            then obtain d where d: "decode_tablespaces (tablespace args) = ([], Return d)"
              by blast
            from validate_tablespaces_cases [of b d] show ?thesis
            proof
              assume "\<exists>m. validate_tablespaces b d = ([Error m], Exit)"
              then show ?thesis
                by (auto simp: recover_def start is_unknown_server_def return_def b d)
            next
              assume "validate_tablespaces b d = ([], Return ())"
              then show ?thesis using colon
                by (simp add: recover_def start is_unknown_server_def return_def b d
                    output_error_def close_and_exit_def)
            qed
          qed
        qed
        then obtain m where "recover cfg ops args = (map Error [m], Exit)" by auto
        then show ?thesis by blast
      qed
    qed
  qed
qed

text \<open>
  C1.  When the destination directory holds a colon, \<^verbatim>\<open>recover\<close> always ends in
  \<^verbatim>\<open>close_and_exit\<close>, whatever the configuration, the server name, the catalogue and
  the backup id are; it emits nothing but error messages and \<^verbatim>\<open>Server.recover\<close> is
  never called.  At least one error is emitted, provided that a disabled server has a
  message in its \<^verbatim>\<open>msg_list\<close>, as the data model requires.
\<close>

theorem recover_destination_colon:
  assumes "CHR '':'' \<in> set (destination_directory args)"
  shows "snd (recover cfg ops args) = Exit \<and>
         (\<forall>e \<in> set (fst (recover cfg ops args)). \<exists>m. e = Error m) \<and>
         (\<forall>call. ServerRecover call \<notin> set (fst (recover cfg ops args))) \<and>
         ((\<forall>c. config_get_server cfg (server_name args) = Some c \<and> disabled c
              \<longrightarrow> msg_list c \<noteq> [])
            \<longrightarrow> error_occurred (fst (recover cfg ops args)))"
proof -
  from recover_rejected [OF assms, of cfg ops] obtain ms where
    run: "recover cfg ops args = (map Error ms, Exit)"
    and ms: "(\<forall>c. config_get_server cfg (server_name args) = Some c \<and> disabled c
                \<longrightarrow> msg_list c \<noteq> []) \<longrightarrow> ms \<noteq> []"
    by blast
  have "ms \<noteq> [] \<Longrightarrow> error_occurred (map Error ms)"
    by (cases ms) (simp_all add: error_occurred_def)
  with ms show ?thesis unfolding run by auto
qed

text \<open>
  The sample request names a known, active server and a completed backup, and gives no
  relocation rule: only its destination is wrong.
\<close>

theorem recover_destination_colon_witness:
  "CHR '':'' \<in> set (destination_directory recover_request) \<and>
   config_get_server (config_of [main_conf] []) (server_name recover_request) = Some main_conf \<and>
   \<not> disabled main_conf \<and>
   snd (recover (config_of [main_conf] []) (ops_of [done_backup]) recover_request) = Exit \<and>
   error_occurred
     (fst (recover (config_of [main_conf] []) (ops_of [done_backup]) recover_request)) \<and>
   (\<forall>call. ServerRecover call \<notin>
      set (fst (recover (config_of [main_conf] []) (ops_of [done_backup]) recover_request))) \<and>
   recover (config_of [main_conf] []) (ops_of [done_backup]) recover_request =
     ([Error (''The destination directory parameter cannot contain the '' @
              sq @ '':'' @ sq @ '' character'' @ nl @
              ''HINT: If you want to do a remote recovery you have to use '' @
              ''the --remote-ssh-command option'')], Exit)"
proof -
  have run: "recover (config_of [main_conf] []) (ops_of [done_backup]) recover_request =
     ([Error (''The destination directory parameter cannot contain the '' @
              sq @ '':'' @ sq @ '' character'' @ nl @
              ''HINT: If you want to do a remote recovery you have to use '' @
              ''the --remote-ssh-command option'')], Exit)"
    by (simp add: recover_def get_server_eq is_unknown_server_def return_def
        parse_backup_id_def decode_tablespaces_def validate_tablespaces_def
        config_of_def ops_of_def recover_request_def main_conf_def done_backup_def
        output_error_def close_and_exit_def)
  have colon: "CHR '':'' \<in> set (destination_directory recover_request)"
    by (simp add: recover_request_def)
  have known:
    "config_get_server (config_of [main_conf] []) (server_name recover_request) = Some main_conf"
    by (simp add: config_of_def recover_request_def main_conf_def)
  have enabled: "\<not> disabled main_conf"
    by (simp add: main_conf_def)
  from known enabled have messages:
    "\<forall>c. config_get_server (config_of [main_conf] []) (server_name recover_request) = Some c
          \<and> disabled c \<longrightarrow> msg_list c \<noteq> []"
    by simp
  from recover_destination_colon [OF colon, of "config_of [main_conf] []" "ops_of [done_backup]"]
    colon known enabled messages run
  show ?thesis by blast
qed

text \<open>
  C10.  For a known, enabled and active server with no global conflict, a backup id that
  resolves to a backup whose status is not \<^verbatim>\<open>DONE\<close> gives the error
  \<^verbatim>\<open>Unknown backup '<id>' for server '<name>'\<close> and nothing else, and the run ends in
  \<^verbatim>\<open>close_and_exit\<close>.  That is the run of the same request on a catalogue that finds
  no backup at all, and the run of the same request with any other relocation rules and
  any other destination: neither is looked at.
\<close>

theorem recover_backup_not_done:
  assumes "config_servers_msg_list cfg = []"
    and "config_get_server cfg (server_name args) = Some c"
    and "\<not> disabled c" and "active c"
    and "parse_backup_id ops (Server c) (backup_id args) = Some backup"
    and "status backup \<noteq> DONE"
  shows "recover cfg ops args =
           ([Error (''Unknown backup '' @ sq @ backup_id args @ sq @
                    '' for server '' @ sq @ server_name args @ sq)], Exit) \<and>
         recover cfg (ops\<lparr>get_backup := \<lambda>_ _. None\<rparr>) args = recover cfg ops args \<and>
         recover cfg ops (args\<lparr>tablespace := ts, destination_directory := dest\<rparr>) =
           recover cfg ops args"
  using assms
  by (simp add: recover_def get_server_eq is_unknown_server_def return_def unknown_backup_eq
      parse_backup_id_def)

theorem recover_backup_not_done_witness:
  "config_servers_msg_list (config_of [main_conf] []) = [] \<and>
   config_get_server (config_of [main_conf] []) (server_name recover_request) = Some main_conf \<and>
   \<not> disabled main_conf \<and> active main_conf \<and>
   parse_backup_id (ops_of [done_backup, failed_backup]) (Server main_conf)
       (backup_id recover_request) = Some failed_backup \<and>
   status failed_backup \<noteq> DONE \<and>
   recover (config_of [main_conf] []) (ops_of [done_backup, failed_backup]) recover_request =
     ([Error (''Unknown backup '' @ sq @ ''latest'' @ sq @
              '' for server '' @ sq @ ''main'' @ sq)], Exit)"
proof -
  have conflicts: "config_servers_msg_list (config_of [main_conf] []) = []"
    by (simp add: config_of_def)
  have known:
    "config_get_server (config_of [main_conf] []) (server_name recover_request) = Some main_conf"
    by (simp add: config_of_def recover_request_def main_conf_def)
  have enabled: "\<not> disabled main_conf" and running: "active main_conf"
    by (simp_all add: main_conf_def)
  have resolved:
    "parse_backup_id (ops_of [done_backup, failed_backup]) (Server main_conf)
       (backup_id recover_request) = Some failed_backup"
    by (simp add: parse_backup_id_def ops_of_def recover_request_def done_backup_def
        failed_backup_def)
  have failed: "status failed_backup \<noteq> DONE"
    by (simp add: failed_backup_def DONE_def)
  from recover_backup_not_done [OF conflicts known enabled running resolved failed]
  have "recover (config_of [main_conf] []) (ops_of [done_backup, failed_backup]) recover_request =
     ([Error (''Unknown backup '' @ sq @ ''latest'' @ sq @
              '' for server '' @ sq @ ''main'' @ sq)], Exit)"
    by (simp add: recover_request_def)
  with conflicts known enabled running resolved failed show ?thesis by blast
qed

subsection \<open>The maintenance run\<close>

text \<open>
  C8.  When the global lock is not taken, \<^verbatim>\<open>cron\<close> calls \<^verbatim>\<open>Server.cron\<close> for no
  server and ends in \<^verbatim>\<open>close_and_exit\<close>.  A busy lock is reported by the information
  message \<^verbatim>\<open>Another cron is running\<close>, and no error is recorded; a lock that cannot
  be accessed is reported by the error \<^verbatim>\<open>Permission denied, unable to access '...'\<close>.
  The two reports differ.
\<close>

theorem cron_lock_failure:
  "cron cfg LockFileBusy = ([Info ''Another cron is running''], Exit) \<and>
   cron cfg (LockFilePermissionDenied e) =
     ([Error (''Permission denied, unable to access '' @ sq @ e @ sq)], Exit) \<and>
   fst (cron cfg LockFileBusy) \<noteq> fst (cron cfg (LockFilePermissionDenied e)) \<and>
   (\<forall>s. ServerCron s \<notin> set (fst (cron cfg LockFileBusy))) \<and>
   (\<forall>s. ServerCron s \<notin> set (fst (cron cfg (LockFilePermissionDenied e)))) \<and>
   \<not> error_occurred (fst (cron cfg LockFileBusy)) \<and>
   error_occurred (fst (cron cfg (LockFilePermissionDenied e)))"
  by (simp add: cron_def output_info_def output_error_def close_and_exit_def error_occurred_def)

theorem cron_lock_failure_witness:
  "cron (config_of [main_conf, broken_conf] []) LockFileBusy =
     ([Info ''Another cron is running''], Exit) \<and>
   cron (config_of [main_conf, broken_conf] []) (LockFilePermissionDenied ''/var/lock/barman'') =
     ([Error (''Permission denied, unable to access '' @ sq @ ''/var/lock/barman'' @ sq)], Exit)"
  using cron_lock_failure [of "config_of [main_conf, broken_conf] []" "''/var/lock/barman''"]
  by blast

text \<open>
  C8, as the specification words it, has each of the two failures reported as an error.
  The busy lock is not: the only message is an information message.
\<close>

theorem cron_busy_counterexample:
  "cron (config_of [main_conf] []) LockFileBusy = ([Info ''Another cron is running''], Exit) \<and>
   \<not> error_occurred [Info ''Another cron is running'']"
  by (simp add: cron_def output_info_def close_and_exit_def error_occurred_def)

end
